theory Spec2Isabelle
  imports Main "HOL-Library.Word"
begin

section \<open>The example program \<open>frontend/public/examples/hello.cpp\<close>\<close>

text \<open>
  The program is one function, \<open>main\<close>. It is embedded as a small machine: a
  configuration holds the program point, the state of the streams \<open>std::cout\<close> and
  \<open>std::cin\<close>, the command line of the process and the three local variables, and
  \<open>step\<close> executes the statement at the program point. Program points carry the line
  numbers of the source.

  The type \<open>int\<close> of the source is a two's complement word whose width \<open>'w\<close> is a type
  parameter of the configuration (\<open>sint\<close> reads its value); the program itself is run at
  32 bits. The value of \<open>message.length()\<close>, a \<open>size_t\<close>, is a natural number: the length
  of a string that exists always fits \<open>size_t\<close>.
\<close>

subsection \<open>The output stream\<close>

text \<open>
  The state of \<open>std::cout\<close>: the characters the host has received, the characters
  inserted and not yet written, and whether a write has failed. The host's standard
  output is described by the number of characters it accepts, \<open>None\<close> when there is no
  bound; a closed descriptor accepts none.
\<close>

record ostream =
  delivered :: string
  pending :: string
  failed :: bool

definition cout_init :: ostream where
  "cout_init = \<lparr>delivered = [], pending = [], failed = False\<rparr>"

definition accepts :: "nat option \<Rightarrow> nat \<Rightarrow> bool" where
  "accepts room n = (case room of None \<Rightarrow> True | Some r \<Rightarrow> n \<le> r)"

text \<open>
  An insertion into a stream on which a write has failed does nothing; the source never
  tests or clears the state of the stream.
\<close>

definition insert_chars :: "string \<Rightarrow> ostream \<Rightarrow> ostream" where
  "insert_chars s os = (if failed os then os else os\<lparr>pending := pending os @ s\<rparr>)"

text \<open>
  \<open>os.flush()\<close>: the pending characters are written to the host. When the host refuses
  them they are lost and the stream is marked as failed. Every output statement of the
  source ends with \<open>std::endl\<close>, which flushes; the flush made by the runtime after
  \<open>main\<close> has returned is not part of \<open>main\<close>.
\<close>

definition flush :: "nat option \<Rightarrow> ostream \<Rightarrow> ostream" where
  "flush room os =
     (if failed os \<or> pending os = [] then os
      else if accepts room (length (delivered os) + length (pending os))
      then os\<lparr>delivered := delivered os @ pending os, pending := []\<rparr>
      else os\<lparr>pending := [], failed := True\<rparr>)"

text \<open>The character \<open>'\n'\<close>, which \<open>std::endl\<close> inserts.\<close>

definition newline :: char where
  "newline = CHR 0x0A"

text \<open>The character of a decimal digit \<open>d < 10\<close>.\<close>

definition digit_char :: "nat \<Rightarrow> char" where
  "digit_char d = ''0123456789'' ! d"

text \<open>The decimal digits of a natural number, most significant first.\<close>

fun dec_nat :: "nat \<Rightarrow> string" where
  "dec_nat n =
     (if n < 10 then [digit_char n] else dec_nat (n div 10) @ [digit_char (n mod 10)])"

declare dec_nat.simps [simp del]

text \<open>\<open>operator<<\<close> on an \<open>int\<close> with the default flags: decimal, a minus sign if negative.\<close>

definition show_int :: "int \<Rightarrow> string" where
  "show_int i = (if i < 0 then CHR ''-'' # dec_nat (nat (- i)) else dec_nat (nat i))"

text \<open>\<open>os << s\<close> for a character literal or a \<open>std::string\<close>.\<close>

definition put_str :: "string \<Rightarrow> ostream \<Rightarrow> ostream" where
  "put_str s os = insert_chars s os"

text \<open>\<open>os << i\<close> for an \<open>int\<close>.\<close>

definition put_int :: "'w::len word \<Rightarrow> ostream \<Rightarrow> ostream" where
  "put_int i os = insert_chars (show_int (sint i)) os"

text \<open>\<open>os << n\<close> for a \<open>size_t\<close>.\<close>

definition put_size :: "nat \<Rightarrow> ostream \<Rightarrow> ostream" where
  "put_size n os = insert_chars (dec_nat n) os"

text \<open>\<open>os << std::endl\<close>: insert \<open>'\n'\<close>, then flush.\<close>

definition endl :: "nat option \<Rightarrow> ostream \<Rightarrow> ostream" where
  "endl room os = flush room (insert_chars [newline] os)"

subsection \<open>Configurations and the statements of \<open>main\<close>\<close>

text \<open>
  \<open>L7\<close> \<open>std::cout << "Hello, C++ World!" << std::endl;\<close>
  \<open>L10\<close> \<open>std::vector<int> numbers = {1, 2, 3, 4, 5};\<close>
  \<open>L13\<close> \<open>int sum = 0;\<close>
  \<open>L14\<close> entry of \<open>for (int num : numbers)\<close>: the iterator is set to \<open>numbers.begin()\<close>
  \<open>Loop\<close> the test \<open>it != numbers.end()\<close> and, when it holds, one iteration:
          \<open>int num = *it; sum += num; ++it\<close>
  \<open>L18\<close> \<open>std::cout << "Sum of numbers: " << sum << std::endl;\<close>
  \<open>L21\<close> \<open>std::string message = "C++ is powerful";\<close>
  \<open>L22\<close> \<open>std::cout << "Message: " << message << std::endl;\<close>
  \<open>L23\<close> \<open>std::cout << "Length: " << message.length() << std::endl;\<close>
  \<open>L25\<close> \<open>return 0;\<close>
  \<open>Done\<close> \<open>main\<close> has returned.
\<close>

datatype pc = L7 | L10 | L13 | L14 | Loop | L18 | L21 | L22 | L23 | L25 | Done

text \<open>
  \<open>cin\<close> is the input that \<open>std::cin\<close> has not read yet (\<open>None\<close> when standard input is
  closed) and \<open>args\<close> the command line of the process: both are there for every
  statement to use. \<open>it\<close> is the position of the iterator of the range-based \<open>for\<close> in
  \<open>numbers\<close>; \<open>retval\<close> is the value \<open>main\<close> has returned, if it has.
\<close>

record (overloaded) ('w::len) config =
  pc :: pc
  cout :: ostream
  cin :: "string option"
  args :: "string list"
  numbers :: "'w word list"
  sum_v :: "'w word"
  it :: nat
  message :: string
  retval :: "int option"

text \<open>
  One statement, on a host whose standard output has room for \<open>room\<close> characters.
  \<open>None\<close>: there is no statement left to execute.
\<close>

fun step :: "nat option \<Rightarrow> 'w::len config \<Rightarrow> 'w config option" where
  "step room c =
     (case pc c of
        L7 \<Rightarrow>
          Some (c\<lparr>cout := endl room (put_str ''Hello, C++ World!'' (cout c)), pc := L10\<rparr>)
      | L10 \<Rightarrow> Some (c\<lparr>numbers := [1, 2, 3, 4, 5], pc := L13\<rparr>)
      | L13 \<Rightarrow> Some (c\<lparr>sum_v := 0, pc := L14\<rparr>)
      | L14 \<Rightarrow> Some (c\<lparr>it := 0, pc := Loop\<rparr>)
      | Loop \<Rightarrow>
          (if it c < length (numbers c)
           then (let num = numbers c ! it c
                 in Some (c\<lparr>sum_v := sum_v c + num, it := it c + 1\<rparr>))
           else Some (c\<lparr>pc := L18\<rparr>))
      | L18 \<Rightarrow>
          Some (c\<lparr>cout :=
                    endl room (put_int (sum_v c) (put_str ''Sum of numbers: '' (cout c))),
                  pc := L21\<rparr>)
      | L21 \<Rightarrow> Some (c\<lparr>message := ''C++ is powerful'', pc := L22\<rparr>)
      | L22 \<Rightarrow>
          Some (c\<lparr>cout := endl room (put_str (message c) (put_str ''Message: '' (cout c))),
                  pc := L23\<rparr>)
      | L23 \<Rightarrow>
          Some (c\<lparr>cout :=
                    endl room (put_size (length (message c)) (put_str ''Length: '' (cout c))),
                  pc := L25\<rparr>)
      | L25 \<Rightarrow> Some (c\<lparr>retval := Some 0, pc := Done\<rparr>)
      | Done \<Rightarrow> None)"

declare step.simps [simp del]

text \<open>The first \<open>n\<close> statements executed from \<open>c\<close> (fewer if \<open>main\<close> returns before).\<close>

fun steps :: "nat option \<Rightarrow> nat \<Rightarrow> 'w::len config \<Rightarrow> 'w config" where
  "steps room 0 c = c"
| "steps room (Suc n) c = (case step room c of None \<Rightarrow> c | Some c' \<Rightarrow> steps room n c')"

text \<open>
  The number of statements left to execute: it decreases with every statement, so the
  execution of \<open>main\<close> from any configuration is a total function.
\<close>

fun remaining :: "'w::len config \<Rightarrow> nat" where
  "remaining c =
     (case pc c of
        L7 \<Rightarrow> 15 | L10 \<Rightarrow> 14
      | L13 \<Rightarrow> 8 + length (numbers c)
      | L14 \<Rightarrow> 7 + length (numbers c)
      | Loop \<Rightarrow> 6 + (length (numbers c) - it c)
      | L18 \<Rightarrow> 5 | L21 \<Rightarrow> 4 | L22 \<Rightarrow> 3 | L23 \<Rightarrow> 2 | L25 \<Rightarrow> 1 | Done \<Rightarrow> 0)"

declare remaining.simps [simp del]

function run :: "nat option \<Rightarrow> 'w::len config \<Rightarrow> 'w config" where
  "run room c = (case step room c of None \<Rightarrow> c | Some c' \<Rightarrow> run room c')"
  by pat_completeness auto
termination
proof (relation "measure (\<lambda>(room, c). remaining c)")
  show "wf (measure (\<lambda>(room, c). remaining c))"
    by simp
next
  fix room and c c' :: "'w::len config"
  assume "step room c = Some c'"
  then have "remaining c' < remaining c"
    by (cases "pc c") (auto simp: step.simps remaining.simps split: if_splits)
  then show "((room, c'), (room, c)) \<in> measure (\<lambda>(room, c). remaining c)"
    by simp
qed

declare run.simps [simp del]



subsection \<open>The program on a host\<close>

text \<open>
  What a host offers a process: command-line arguments, a standard input stream (\<open>None\<close>
  when it is closed), the line terminator of its text streams and the room of its
  standard output.
\<close>

record host =
  argv :: "string list"
  stdin_data :: "string option"
  eol :: string
  stdout_room :: "nat option"

text \<open>
  The configuration in which \<open>main\<close> is entered on the host \<open>h\<close>. The stream \<open>std::cout\<close>
  is empty and in its good state. The local variables are not declared yet: their storage
  holds whatever was there, here the values of an arbitrary configuration \<open>u\<close>.
\<close>

definition init_config :: "host \<Rightarrow> 'w::len config \<Rightarrow> 'w config" where
  "init_config h u =
     \<lparr>pc = L7, cout = cout_init, cin = stdin_data h, args = argv h, numbers = numbers u,
      sum_v = sum_v u, it = it u, message = message u, retval = None\<rparr>"

text \<open>Standard output is a text stream: the host writes its line terminator for \<open>'\n'\<close>.\<close>

fun render :: "string \<Rightarrow> string \<Rightarrow> string" where
  "render e [] = []"
| "render e (ch # cs) = (if ch = newline then e else [ch]) @ render e cs"

text \<open>The program with \<open>int\<close> at 32 bits.\<close>

definition main_cpp :: "host \<Rightarrow> 32 config \<Rightarrow> 32 config" where
  "main_cpp h u = run (stdout_room h) (init_config h u)"

text \<open>The configuration of the program after its first \<open>n\<close> statements.\<close>

definition main_at :: "host \<Rightarrow> 32 config \<Rightarrow> nat \<Rightarrow> 32 config" where
  "main_at h u n = steps (stdout_room h) n (init_config h u)"

text \<open>
  A run of the program: the text the host has received on standard output and the exit
  status.
\<close>

definition run_program :: "host \<Rightarrow> 32 config \<Rightarrow> string \<times> int option" where
  "run_program h u =
     (render (eol h) (delivered (cout (main_cpp h u))), retval (main_cpp h u))"

subsection \<open>The stream after each output statement\<close>

text \<open>
  The state of \<open>std::cout\<close> after the statements of lines 7, 18, 22 and 23, executed in
  this order from the stream at entry; \<open>s\<close> is the value of \<open>sum\<close> at line 18.
\<close>

abbreviation cout_L7 :: "nat option \<Rightarrow> ostream" where
  "cout_L7 room \<equiv> endl room (put_str ''Hello, C++ World!'' cout_init)"

abbreviation cout_L18 :: "nat option \<Rightarrow> 'w::len word \<Rightarrow> ostream" where
  "cout_L18 room s \<equiv> endl room (put_int s (put_str ''Sum of numbers: '' (cout_L7 room)))"

abbreviation cout_L22 :: "nat option \<Rightarrow> 'w::len word \<Rightarrow> ostream" where
  "cout_L22 room s \<equiv>
     endl room (put_str ''C++ is powerful'' (put_str ''Message: '' (cout_L18 room s)))"

abbreviation cout_L23 :: "nat option \<Rightarrow> 'w::len word \<Rightarrow> ostream" where
  "cout_L23 room s \<equiv> endl room (put_size 15 (put_str ''Length: '' (cout_L22 room s)))"

subsection \<open>A host and a stale configuration\<close>

text \<open>
  A host with one argument, an empty standard input, \<open>'\n'\<close> as line terminator and a
  standard output without bound.
\<close>

definition posix_host :: host where
  "posix_host = \<lparr>argv = [''./hello''], stdin_data = Some [], eol = [newline], stdout_room = None\<rparr>"

text \<open>
  A configuration whose values are all different from the ones \<open>main\<close> assigns: what the
  storage of the local variables may hold when \<open>main\<close> is entered.
\<close>

definition stale :: "'w::len config" where
  "stale =
     \<lparr>pc = Done, cout = \<lparr>delivered = ''old'', pending = ''x'', failed = True\<rparr>, cin = None,
      args = [], numbers = [7, 7], sum_v = 7, it = 3, message = ''junk'', retval = Some 1\<rparr>"

section \<open>Facts about the machine\<close>

subsection \<open>Executing statements\<close>

lemma steps_halted: "step room c = None \<Longrightarrow> steps room n c = c"
  by (cases n) simp_all

lemma steps_add: "steps room (m + n) c = steps room n (steps room m c)"
proof (induction m arbitrary: c)
  case 0
  show ?case by simp
next
  case (Suc m)
  show ?case
  proof (cases "step room c")
    case None
    then show ?thesis by (simp add: steps_halted)
  next
    case (Some c')
    then show ?thesis by (simp add: Suc.IH)
  qed
qed

lemma step_None_iff: "step room c = None \<longleftrightarrow> pc c = Done"
  by (cases "pc c") (simp_all add: step.simps Let_def)

lemma run_steps: "step room (steps room n c) = None \<Longrightarrow> run room c = steps room n c"
proof (induction n arbitrary: c)
  case 0
  then show ?case by (simp add: run.simps)
next
  case (Suc n)
  show ?case
  proof (cases "step room c")
    case None
    then show ?thesis by (simp add: run.simps)
  next
    case (Some c')
    with Suc show ?thesis by (simp add: run.simps [of room c])
  qed
qed

subsection \<open>Termination\<close>

text \<open>\<open>remaining\<close> is the exact number of statements that are still executed.\<close>

lemma remaining_0_iff: "remaining c = 0 \<longleftrightarrow> pc c = Done"
  by (cases "pc c") (simp_all add: remaining.simps)

lemma step_remaining: "step room c = Some c' \<Longrightarrow> remaining c = Suc (remaining c')"
  by (cases "pc c") (auto simp: step.simps remaining.simps Let_def split: if_splits)

lemma steps_remaining: "remaining (steps room n c) = remaining c - n"
proof (induction n arbitrary: c)
  case 0
  show ?case by simp
next
  case (Suc n)
  show ?case
  proof (cases "step room c")
    case None
    moreover from None have "remaining c = 0"
      by (simp add: step_None_iff remaining_0_iff)
    ultimately show ?thesis
      by simp
  next
    case (Some c')
    then show ?thesis
      by (simp add: Suc.IH step_remaining)
  qed
qed

lemma run_remaining: "run room c = steps room (remaining c) c"
proof (induction room c rule: run.induct)
  case (1 room c)
  show ?case
  proof (cases "step room c")
    case None
    then have "remaining c = 0"
      by (simp add: step_None_iff remaining_0_iff)
    with None show ?thesis
      by (simp add: run.simps [of room c])
  next
    case (Some c')
    with 1 have "run room c' = steps room (remaining c') c'"
      by simp
    with Some show ?thesis
      by (simp add: run.simps [of room c] step_remaining)
  qed
qed

lemma run_Done: "pc (run room c) = Done"
  by (simp add: run_remaining remaining_0_iff [symmetric] steps_remaining)

subsection \<open>The value returned\<close>

lemma step_to_Done: "step room c = Some c' \<Longrightarrow> pc c' = Done \<Longrightarrow> retval c' = Some 0"
  by (cases "pc c") (auto simp: step.simps Let_def split: if_splits)

lemma run_retval: "pc c \<noteq> Done \<Longrightarrow> retval (run room c) = Some 0"
proof (induction room c rule: run.induct)
  case (1 room c)
  from "1.prems" obtain c' where st: "step room c = Some c'"
    by (cases "step room c") (simp_all add: step_None_iff)
  show ?case
  proof (cases "pc c' = Done")
    case True
    then have "step room c' = None"
      by (simp add: step_None_iff)
    then have "run room c' = c'"
      by (simp add: run.simps [of room c'])
    with st True show ?thesis
      by (simp add: run.simps [of room c] step_to_Done)
  next
    case False
    with "1.IH" st show ?thesis
      by (simp add: run.simps [of room c])
  qed
qed

subsection \<open>Executions as derivations\<close>



subsection \<open>The statements that assign \<open>numbers\<close> and \<open>message\<close>\<close>

lemma step_numbers: "step room c = Some c' \<Longrightarrow> pc c \<noteq> L10 \<Longrightarrow> numbers c' = numbers c"
  by (cases "pc c") (auto simp: step.simps Let_def split: if_splits)

lemma step_message: "step room c = Some c' \<Longrightarrow> pc c \<noteq> L21 \<Longrightarrow> message c' = message c"
  by (cases "pc c") (auto simp: step.simps Let_def split: if_splits)

lemma step_past_L10:
  "step room c = Some c' \<Longrightarrow> pc c \<notin> {L7, L10} \<Longrightarrow> pc c' \<notin> {L7, L10}"
  by (cases "pc c") (auto simp: step.simps Let_def split: if_splits)

lemma step_past_L21:
  "step room c = Some c' \<Longrightarrow> pc c \<in> {L22, L23, L25, Done} \<Longrightarrow>
   pc c' \<in> {L22, L23, L25, Done}"
  by (cases "pc c") (auto simp: step.simps Let_def split: if_splits)

lemma steps_numbers: "pc c \<notin> {L7, L10} \<Longrightarrow> numbers (steps room n c) = numbers c"
proof (induction n arbitrary: c)
  case 0
  show ?case by simp
next
  case (Suc n)
  show ?case
  proof (cases "step room c")
    case None
    then show ?thesis by simp
  next
    case (Some c')
    with Suc.prems have "pc c' \<notin> {L7, L10}" and "numbers c' = numbers c"
      by (auto dest: step_past_L10 step_numbers)
    with Some Suc.IH [of c'] show ?thesis
      by simp
  qed
qed

lemma steps_message:
  "pc c \<in> {L22, L23, L25, Done} \<Longrightarrow> message (steps room n c) = message c"
proof (induction n arbitrary: c)
  case 0
  show ?case by simp
next
  case (Suc n)
  show ?case
  proof (cases "step room c")
    case None
    then show ?thesis by simp
  next
    case (Some c')
    with Suc.prems have "pc c' \<in> {L22, L23, L25, Done}" and "message c' = message c"
      by (auto dest: step_past_L21 step_message)
    with Some Suc.IH [of c'] show ?thesis
      by simp
  qed
qed

subsection \<open>The command line and the standard input\<close>

text \<open>
  No statement reads or changes them: a statement executed with another command line and
  another input does the same, and leaves both as they are.
\<close>

lemma step_input:
  "step room (c\<lparr>args := a, cin := i\<rparr>) =
     map_option (\<lambda>c'. c'\<lparr>args := a, cin := i\<rparr>) (step room c)"
  by (cases "pc c") (simp_all add: step.simps Let_def)

lemma run_input: "run room (c\<lparr>args := a, cin := i\<rparr>) = (run room c)\<lparr>args := a, cin := i\<rparr>"
proof (induction room c rule: run.induct)
  case (1 room c)
  show ?case
  proof (cases "step room c")
    case None
    then show ?thesis
      by (simp add: run.simps [of room c] run.simps [of room "c\<lparr>args := a, cin := i\<rparr>"]
          step_input)
  next
    case (Some c')
    with 1 have "run room (c'\<lparr>args := a, cin := i\<rparr>) = (run room c')\<lparr>args := a, cin := i\<rparr>"
      by simp
    with Some show ?thesis
      by (simp add: run.simps [of room c] run.simps [of room "c\<lparr>args := a, cin := i\<rparr>"]
          step_input)
  qed
qed

lemma step_keeps_input: "step room c = Some c' \<Longrightarrow> args c' = args c \<and> cin c' = cin c"
  by (cases "pc c") (auto simp: step.simps Let_def split: if_splits)

lemma run_keeps_input: "args (run room c) = args c \<and> cin (run room c) = cin c"
proof (induction room c rule: run.induct)
  case (1 room c)
  show ?case
  proof (cases "step room c")
    case None
    then show ?thesis
      by (simp add: run.simps [of room c])
  next
    case (Some c')
    with 1 step_keeps_input [OF Some] show ?thesis
      by (simp add: run.simps [of room c])
  qed
qed

subsection \<open>The traversal\<close>

text \<open>
  \<open>k\<close> iterations from any configuration at the loop, on any sequence: the iterator
  advances by \<open>k\<close> and the elements it passes are added to \<open>sum\<close>, in words.
\<close>

lemma loop_steps:
  "pc c = Loop \<Longrightarrow> it c + k \<le> length (numbers c) \<Longrightarrow>
   steps room k c = c\<lparr>sum_v := sum_v c + sum_list (take k (drop (it c) (numbers c))),
                      it := it c + k\<rparr>"
proof (induction k arbitrary: c)
  case 0
  then show ?case by simp
next
  case (Suc k)
  let ?c' = "c\<lparr>sum_v := sum_v c + numbers c ! it c, it := it c + 1\<rparr>"
  from Suc.prems have lt: "it c < length (numbers c)"
    by simp
  with Suc.prems have st: "step room c = Some ?c'"
    by (simp add: step.simps)
  have "pc ?c' = Loop" and "it ?c' + k \<le> length (numbers ?c')"
    using Suc.prems by simp_all
  then have "steps room k ?c' =
      ?c'\<lparr>sum_v := sum_v ?c' + sum_list (take k (drop (it ?c') (numbers ?c'))),
           it := it ?c' + k\<rparr>"
    by (rule Suc.IH)
  moreover have "drop (it c) (numbers c) = numbers c ! it c # drop (Suc (it c)) (numbers c)"
    using lt by (simp add: Cons_nth_drop_Suc)
  ultimately show ?case
    using st by (simp add: add.assoc)
qed

lemma loop_leaves:
  assumes "pc c = Loop" and "it c \<le> length (numbers c)"
  shows "pc (steps room (Suc (length (numbers c) - it c)) c) = L18"
proof -
  let ?m = "length (numbers c) - it c"
  let ?c' = "steps room ?m c"
  from assms have "?c' = c\<lparr>sum_v := sum_v c + sum_list (take ?m (drop (it c) (numbers c))),
      it := it c + ?m\<rparr>"
    by (intro loop_steps) simp_all
  with assms have "step room ?c' = Some (?c'\<lparr>pc := L18\<rparr>)"
    by (simp add: step.simps)
  moreover have "steps room (Suc ?m) c = steps room 1 ?c'"
    using steps_add [of room ?m 1 c] by simp
  ultimately show ?thesis
    by simp
qed

subsection \<open>Decimal output and signed values\<close>




lemma message_length: "length ''C++ is powerful'' = 15"
  by simp

lemma sint_small:
  assumes "5 \<le> LENGTH('w::len)" and "0 \<le> x" and "x \<le> 15"
  shows "sint (word_of_int x :: 'w word) = x"
proof -
  have "(2::int) ^ 4 \<le> 2 ^ (LENGTH('w) - 1)"
    using assms(1) by (intro power_increasing) simp_all
  then have "- (2 ^ (LENGTH('w) - 1)) \<le> x" and "x < 2 ^ (LENGTH('w) - 1)"
    using assms(2,3) by simp_all
  then show ?thesis
    by (simp add: sint_sbintrunc' signed_take_bit_int_eq_self)
qed

lemma le_5_cases: "k \<le> 5 \<Longrightarrow> k = 0 \<or> k = 1 \<or> k = 2 \<or> k = 3 \<or> k = 4 \<or> k = (5::nat)"
  by arith

lemma partial_sum_bounds:
  "k \<le> 5 \<Longrightarrow> 0 \<le> sum_list (take k [1, 2, 3, 4, 5 :: int]) \<and>
     sum_list (take k [1, 2, 3, 4, 5 :: int]) \<le> 15"
  by (auto dest!: le_5_cases)

lemma partial_sum_word:
  "sum_list (take k [1, 2, 3, 4, 5 :: 'w::len word]) =
     word_of_int (sum_list (take k [1, 2, 3, 4, 5]))"
proof -
  have hom: "sum_list (map word_of_int xs) = (word_of_int (sum_list xs) :: 'w word)" for xs
    by (induction xs) simp_all
  have ns: "[1, 2, 3, 4, 5 :: 'w word] = map word_of_int [1, 2, 3, 4, 5]"
    by simp
  show ?thesis
    by (simp only: ns take_map hom)
qed

lemma sint_partial_sum:
  assumes "5 \<le> LENGTH('w::len)" and "k \<le> 5"
  shows "sint (sum_list (take k [1, 2, 3, 4, 5 :: 'w word])) = sum_list (take k [1, 2, 3, 4, 5])"
  using assms partial_sum_bounds [of k] by (simp add: partial_sum_word sint_small)

subsection \<open>Lines on the stream\<close>
















subsection \<open>The configurations of the program\<close>

text \<open>
  The configuration after each statement, on any host, from any values of the storage of
  the locals and at any width of \<open>int\<close>.
\<close>

lemma steps_1_init:
  "steps room 1 (init_config h u) =
     \<lparr>pc = L10, cout = cout_L7 room, cin = stdin_data h, args = argv h, numbers = numbers u,
      sum_v = sum_v u, it = it u, message = message u, retval = None\<rparr>"
  by (simp add: step.simps init_config_def)

lemma steps_2_init:
  "steps room 2 (init_config h u) =
     \<lparr>pc = L13, cout = cout_L7 room, cin = stdin_data h, args = argv h,
      numbers = [1, 2, 3, 4, 5], sum_v = sum_v u, it = it u, message = message u,
      retval = None\<rparr>"
  by (simp add: eval_nat_numeral step.simps init_config_def)

lemma steps_3_init:
  "steps room 3 (init_config h u) =
     \<lparr>pc = L14, cout = cout_L7 room, cin = stdin_data h, args = argv h,
      numbers = [1, 2, 3, 4, 5], sum_v = 0, it = it u, message = message u, retval = None\<rparr>"
  by (simp add: eval_nat_numeral step.simps init_config_def)

lemma steps_4_init:
  "steps room 4 (init_config h u) =
     \<lparr>pc = Loop, cout = cout_L7 room, cin = stdin_data h, args = argv h,
      numbers = [1, 2, 3, 4, 5], sum_v = 0, it = 0, message = message u, retval = None\<rparr>"
  by (simp add: eval_nat_numeral step.simps init_config_def)

lemma steps_loop_init:
  assumes "k \<le> 5"
  shows "steps room (4 + k) (init_config h u) =
     \<lparr>pc = Loop, cout = cout_L7 room, cin = stdin_data h, args = argv h,
      numbers = [1, 2, 3, 4, 5], sum_v = sum_list (take k [1, 2, 3, 4, 5]), it = k,
      message = message u, retval = None\<rparr>"
  using assms by (simp add: steps_add steps_4_init loop_steps)

lemma steps_9_init:
  "steps room 9 (init_config h u) =
     \<lparr>pc = Loop, cout = cout_L7 room, cin = stdin_data h, args = argv h,
      numbers = [1, 2, 3, 4, 5], sum_v = 15, it = 5, message = message u, retval = None\<rparr>"
  using steps_loop_init [of 5 room h u] by simp

lemma steps_10_init:
  "steps room 10 (init_config h u) =
     \<lparr>pc = L18, cout = cout_L7 room, cin = stdin_data h, args = argv h,
      numbers = [1, 2, 3, 4, 5], sum_v = 15, it = 5, message = message u, retval = None\<rparr>"
  using steps_add [of room 9 1 "init_config h u"]
  by (simp add: steps_9_init step.simps)

lemma steps_11_init:
  "steps room 11 (init_config h (u :: 'w::len config)) =
     \<lparr>pc = L21, cout = cout_L18 room (15 :: 'w word), cin = stdin_data h, args = argv h,
      numbers = [1, 2, 3, 4, 5], sum_v = 15, it = 5, message = message u, retval = None\<rparr>"
  using steps_add [of room 10 1 "init_config h u"]
  by (simp add: steps_10_init step.simps)

lemma steps_12_init:
  "steps room 12 (init_config h (u :: 'w::len config)) =
     \<lparr>pc = L22, cout = cout_L18 room (15 :: 'w word), cin = stdin_data h, args = argv h,
      numbers = [1, 2, 3, 4, 5], sum_v = 15, it = 5, message = ''C++ is powerful'',
      retval = None\<rparr>"
  using steps_add [of room 11 1 "init_config h u"]
  by (simp add: steps_11_init step.simps)

lemma steps_13_init:
  "steps room 13 (init_config h (u :: 'w::len config)) =
     \<lparr>pc = L23, cout = cout_L22 room (15 :: 'w word), cin = stdin_data h, args = argv h,
      numbers = [1, 2, 3, 4, 5], sum_v = 15, it = 5, message = ''C++ is powerful'',
      retval = None\<rparr>"
  using steps_add [of room 12 1 "init_config h u"]
  by (simp add: steps_12_init step.simps)

lemma steps_14_init:
  "steps room 14 (init_config h (u :: 'w::len config)) =
     \<lparr>pc = L25, cout = cout_L23 room (15 :: 'w word), cin = stdin_data h, args = argv h,
      numbers = [1, 2, 3, 4, 5], sum_v = 15, it = 5, message = ''C++ is powerful'',
      retval = None\<rparr>"
  using steps_add [of room 13 1 "init_config h u"]
  by (simp add: steps_13_init step.simps message_length del: list.size)

lemma steps_15_init:
  "steps room 15 (init_config h (u :: 'w::len config)) =
     \<lparr>pc = Done, cout = cout_L23 room (15 :: 'w word), cin = stdin_data h, args = argv h,
      numbers = [1, 2, 3, 4, 5], sum_v = 15, it = 5, message = ''C++ is powerful'',
      retval = Some 0\<rparr>"
  using steps_add [of room 14 1 "init_config h u"]
  by (simp add: steps_14_init step.simps)

lemma run_init: "run room (init_config h u) = steps room 15 (init_config h u)"
  by (rule run_steps) (simp add: steps_15_init step.simps)

lemma remaining_init: "remaining (init_config h u) = 15"
  by (simp add: remaining.simps init_config_def)

lemma remaining_main_at: "remaining (main_at h u n) = 15 - n"
  by (simp add: main_at_def steps_remaining remaining_init)

lemma main_at_add: "main_at h u (m + n) = steps (stdout_room h) n (main_at h u m)"
  by (simp add: main_at_def steps_add)

lemma main_at_loop:
  assumes "k \<le> 5"
  shows "main_at h u (4 + k) =
     \<lparr>pc = Loop, cout = cout_L7 (stdout_room h), cin = stdin_data h, args = argv h,
      numbers = [1, 2, 3, 4, 5], sum_v = sum_list (take k [1, 2, 3, 4, 5]), it = k,
      message = message u, retval = None\<rparr>"
  unfolding main_at_def using assms by (rule steps_loop_init)

lemma main_cpp_eq:
  "main_cpp h u =
     \<lparr>pc = Done, cout = cout_L23 (stdout_room h) (15 :: 32 word), cin = stdin_data h,
      args = argv h, numbers = [1, 2, 3, 4, 5], sum_v = 15, it = 5,
      message = ''C++ is powerful'', retval = Some 0\<rparr>"
  by (simp add: main_cpp_def run_init steps_15_init)





text \<open>At 4 bits the accumulator would wrap: the bound of 5 bits is the least one.\<close>

lemma sum_wraps_at_4_bits:
  "sint (sum_v (run room (init_config h u :: 4 config))) = - 1"
  by (simp add: run_init steps_15_init)

section \<open>The claims\<close>








text \<open>
  Claim C4. From every configuration in which \<open>main\<close> has not returned yet, whatever the
  program point, the variables and the stream hold and whatever the host's standard
  output accepts, the execution ends with \<open>main\<close> having returned 0; the statement of
  line 25 returns 0 in every configuration; and the exit status of the program is 0 on
  every host.
\<close>

theorem main_returns_zero:
  "(pc c \<noteq> Done \<longrightarrow> pc (run room c) = Done \<and> retval (run room c) = Some 0)
   \<and> (pc c = L25 \<longrightarrow> step room c = Some (c\<lparr>retval := Some 0, pc := Done\<rparr>))
   \<and> snd (run_program h u) = Some 0"
  by (simp add: run_Done run_retval step.simps run_program_def main_cpp_eq)

theorem main_returns_zero_witness:
  "pc (main_at posix_host stale 14) \<noteq> Done \<and> pc (main_at posix_host stale 14) = L25
   \<and> pc (run None (main_at posix_host stale 14)) = Done
   \<and> retval (run None (main_at posix_host stale 14)) = Some 0
   \<and> step None (main_at posix_host stale 14) =
       Some ((main_at posix_host stale 14)\<lparr>retval := Some 0, pc := Done\<rparr>)"
proof -
  have "pc (main_at posix_host stale 14) = L25"
    by (simp add: main_at_def steps_14_init)
  with main_returns_zero [of "main_at posix_host stale 14" None] show ?thesis
    by simp
qed

text \<open>
  Claim C5. Two hosts that differ only in the command-line arguments and in the standard
  input stream they provide (they agree on the line terminator and on what standard
  output accepts) see the same output and the same exit status. This rests on the
  statements of \<open>main\<close>: from any configuration, the execution with another command line
  and another standard input ends in the same configuration but for these two, and no
  execution changes them (no input is consumed).
\<close>

theorem output_ignores_arguments_and_stdin:
  "(eol h = eol h' \<and> stdout_room h = stdout_room h' \<longrightarrow>
      run_program h u = run_program h' u)
   \<and> run room (c\<lparr>args := a, cin := i\<rparr>) = (run room c)\<lparr>args := a, cin := i\<rparr>
   \<and> args (run room c) = args c \<and> cin (run room c) = cin c"
proof -
  have "run_program h u = run_program h' u"
    if "eol h = eol h'" and "stdout_room h = stdout_room h'"
  proof -
    have "init_config h' u = (init_config h u)\<lparr>args := argv h', cin := stdin_data h'\<rparr>"
      by (simp add: init_config_def)
    then have "main_cpp h' u = (main_cpp h u)\<lparr>args := argv h', cin := stdin_data h'\<rparr>"
      using that(2) by (simp add: main_cpp_def run_input)
    then have "cout (main_cpp h' u) = cout (main_cpp h u)"
      and "retval (main_cpp h' u) = retval (main_cpp h u)"
      by simp_all
    with that(1) show ?thesis
      by (simp add: run_program_def)
  qed
  then show ?thesis
    by (simp add: run_input run_keeps_input)
qed

theorem output_ignores_arguments_and_stdin_witness:
  "eol posix_host = eol (posix_host\<lparr>argv := [''./hello'', ''--verbose''], stdin_data := None\<rparr>)
   \<and> stdout_room posix_host =
       stdout_room (posix_host\<lparr>argv := [''./hello'', ''--verbose''], stdin_data := None\<rparr>)
   \<and> argv posix_host \<noteq> argv (posix_host\<lparr>argv := [''./hello'', ''--verbose''], stdin_data := None\<rparr>)
   \<and> run_program posix_host stale =
       run_program (posix_host\<lparr>argv := [''./hello'', ''--verbose''], stdin_data := None\<rparr>) stale"
  using output_ignores_arguments_and_stdin
    [where h = posix_host
       and h' = "posix_host\<lparr>argv := [''./hello'', ''--verbose''], stdin_data := None\<rparr>"
       and u = stale and room = None and c = "stale :: 32 config" and a = "[]" and i = None]
  by (simp add: posix_host_def)



text \<open>
  Claim C7. At every width \<open>'w\<close> of \<open>int\<close> of at least 5 bits, the accumulator holds after
  \<open>k\<close> iterations the exact sum of the first \<open>k\<close> elements, which lies in the range of a
  signed \<open>'w\<close>-bit integer; each addition \<open>sum += num\<close> gives the exact sum of its
  operands; and the final value is 15.
\<close>

theorem sum_does_not_overflow:
  fixes u :: "'w::len config"
  assumes "5 \<le> LENGTH('w)" and "k \<le> 5"
  shows "sint (sum_v (steps room (4 + k) (init_config h u))) =
           sum_list (take k [1, 2, 3, 4, 5])
    \<and> - (2 ^ (LENGTH('w) - 1)) \<le> sum_list (take k [1, 2, 3, 4, 5 :: int])
    \<and> sum_list (take k [1, 2, 3, 4, 5 :: int]) < 2 ^ (LENGTH('w) - 1)
    \<and> (k < 5 \<longrightarrow>
         sint (sum_v (steps room (4 + Suc k) (init_config h u))) =
           sint (sum_v (steps room (4 + k) (init_config h u))) +
           sint (numbers (steps room (4 + k) (init_config h u)) ! k))
    \<and> sint (sum_v (run room (init_config h u))) = 15"
proof -
  let ?ns = "[1, 2, 3, 4, 5 :: int]"
  have sum_at: "sint (sum_v (steps room (4 + j) (init_config h u))) = sum_list (take j ?ns)"
    if "j \<le> 5" for j
    using that assms(1) by (simp add: steps_loop_init sint_partial_sum)
  have "(2::int) ^ 4 \<le> 2 ^ (LENGTH('w) - 1)"
    using assms(1) by (intro power_increasing) simp_all
  with partial_sum_bounds [OF assms(2)]
  have fits: "- (2 ^ (LENGTH('w) - 1)) \<le> sum_list (take k ?ns)"
    "sum_list (take k ?ns) < 2 ^ (LENGTH('w) - 1)"
    by simp_all
  have next_one: "sint (sum_v (steps room (4 + Suc k) (init_config h u))) =
           sint (sum_v (steps room (4 + k) (init_config h u))) +
           sint (numbers (steps room (4 + k) (init_config h u)) ! k)" if "k < 5"
  proof -
    have "take (Suc k) ?ns = take k ?ns @ [?ns ! k]"
      using that by (intro take_Suc_conv_app_nth) simp
    then have "sum_list (take (Suc k) ?ns) = sum_list (take k ?ns) + ?ns ! k"
      by (simp only: sum_list_append sum_list.Cons sum_list.Nil add_0_right)
    moreover have "sint (([1, 2, 3, 4, 5] :: 'w word list) ! k) = ?ns ! k"
    proof -
      have "([1, 2, 3, 4, 5] :: 'w word list) ! k = word_of_int (?ns ! k)"
        using that le_5_cases [of k] by auto
      moreover have "0 \<le> ?ns ! k \<and> ?ns ! k \<le> 15"
        using that le_5_cases [of k] by auto
      ultimately show ?thesis
        using assms(1) by (simp only: sint_small)
    qed
    moreover have "numbers (steps room (4 + k) (init_config h u)) = [1, 2, 3, 4, 5]"
      using that by (simp add: steps_loop_init)
    ultimately show ?thesis
      using that sum_at [of k] sum_at [of "Suc k"] by simp
  qed
  have "sint (15 :: 'w word) = 15"
    using sint_small [of 15, where ?'w = 'w] assms(1) by simp
  then have "sint (sum_v (run room (init_config h u))) = 15"
    by (simp add: run_init steps_15_init)
  with sum_at [OF assms(2)] fits next_one show ?thesis
    by blast
qed

theorem sum_does_not_overflow_witness:
  "5 \<le> LENGTH(5) \<and> (4::nat) \<le> 5 \<and> (4::nat) < 5
   \<and> sint (sum_v (steps None (4 + 4) (init_config posix_host (stale :: 5 config)))) =
       sum_list (take 4 [1, 2, 3, 4, 5])
   \<and> sint (sum_v (steps None (4 + Suc 4) (init_config posix_host (stale :: 5 config)))) =
       sint (sum_v (steps None (4 + 4) (init_config posix_host (stale :: 5 config)))) +
       sint (numbers (steps None (4 + 4) (init_config posix_host (stale :: 5 config))) ! 4)
   \<and> sint (sum_v (run None (init_config posix_host (stale :: 5 config)))) = 15"
proof -
  have w: "5 \<le> LENGTH(5)" and k: "(4::nat) \<le> 5"
    by simp_all
  from sum_does_not_overflow [OF w k] w show ?thesis
    by simp
qed

text \<open>
  Claim C8. From the end of the statement of line 10 on, \<open>numbers\<close> is \<open>(1, 2, 3, 4, 5)\<close>,
  and from the end of the statement of line 21 on, \<open>message\<close> is \<open>C++ is powerful\<close>, in
  every later configuration of the program. Each of the two statements is executed once.
  In any configuration, no statement but that of line 10 changes \<open>numbers\<close>, none but
  that of line 21 changes \<open>message\<close>, and an iteration of the loop leaves the stream
  as it is too.
\<close>

theorem numbers_and_message_unchanged:
  "(2 \<le> n \<longrightarrow> numbers (main_at h u n) = [1, 2, 3, 4, 5])
   \<and> (12 \<le> n \<longrightarrow> message (main_at h u n) = ''C++ is powerful'')
   \<and> (pc (main_at h u n) = L10 \<longleftrightarrow> n = 1)
   \<and> (pc (main_at h u n) = L21 \<longleftrightarrow> n = 11)
   \<and> (step room c = Some c' \<longrightarrow>
        (pc c \<noteq> L10 \<longrightarrow> numbers c' = numbers c) \<and>
        (pc c \<noteq> L21 \<longrightarrow> message c' = message c) \<and>
        (pc c = Loop \<longrightarrow> cout c' = cout c))"
proof -
  have "numbers (main_at h u n) = [1, 2, 3, 4, 5]" if "2 \<le> n"
  proof -
    from that obtain m where n: "n = 2 + m"
      by (auto simp: le_iff_add)
    have "pc (main_at h u 2) \<notin> {L7, L10}"
      by (simp add: main_at_def steps_2_init)
    then have "numbers (steps (stdout_room h) m (main_at h u 2)) = numbers (main_at h u 2)"
      by (rule steps_numbers)
    then show ?thesis
      unfolding n main_at_add by (simp add: main_at_def steps_2_init)
  qed
  moreover have "message (main_at h u n) = ''C++ is powerful''" if "12 \<le> n"
  proof -
    from that obtain m where n: "n = 12 + m"
      by (auto simp: le_iff_add)
    have "pc (main_at h u 12) \<in> {L22, L23, L25, Done}"
      by (simp add: main_at_def steps_12_init)
    then have "message (steps (stdout_room h) m (main_at h u 12)) = message (main_at h u 12)"
      by (rule steps_message)
    then show ?thesis
      unfolding n main_at_add by (simp add: main_at_def steps_12_init)
  qed
  moreover have "pc (main_at h u n) = L10 \<longleftrightarrow> n = 1"
  proof
    assume "pc (main_at h u n) = L10"
    then have "remaining (main_at h u n) = 14"
      by (simp add: remaining.simps)
    then show "n = 1"
      by (simp add: remaining_main_at)
  next
    assume "n = 1"
    then show "pc (main_at h u n) = L10"
      using steps_1_init [of "stdout_room h" h u] by (simp add: main_at_def)
  qed
  moreover have "pc (main_at h u n) = L21 \<longleftrightarrow> n = 11"
  proof
    assume "pc (main_at h u n) = L21"
    then have "remaining (main_at h u n) = 4"
      by (simp add: remaining.simps)
    then show "n = 11"
      by (simp add: remaining_main_at)
  next
    assume "n = 11"
    then show "pc (main_at h u n) = L21"
      by (simp add: main_at_def steps_11_init)
  qed
  moreover have "cout c' = cout c" if "step room c = Some c'" and "pc c = Loop"
    using that by (auto simp: step.simps Let_def split: if_splits)
  ultimately show ?thesis
    by (auto dest: step_numbers step_message)
qed

theorem numbers_and_message_unchanged_witness:
  "(2::nat) \<le> 13 \<and> (12::nat) \<le> 13 \<and> numbers (stale :: 32 config) = [7, 7]
   \<and> message (stale :: 32 config) = ''junk''
   \<and> numbers (main_at posix_host stale 13) = [1, 2, 3, 4, 5]
   \<and> message (main_at posix_host stale 13) = ''C++ is powerful''
   \<and> step None (main_at posix_host stale 6) = Some (main_at posix_host stale 7)
   \<and> pc (main_at posix_host stale 6) = Loop
   \<and> numbers (main_at posix_host stale 7) = numbers (main_at posix_host stale 6)
   \<and> message (main_at posix_host stale 7) = message (main_at posix_host stale 6)
   \<and> cout (main_at posix_host stale 7) = cout (main_at posix_host stale 6)"
proof -
  have st: "step None (main_at posix_host stale 6) = Some (main_at posix_host stale 7)"
    using main_at_loop [of 2 posix_host stale] main_at_loop [of 3 posix_host stale]
    by (simp add: step.simps)
  have at: "pc (main_at posix_host stale 6) = Loop"
    using main_at_loop [of 2 posix_host stale] by simp
  have junk: "numbers (stale :: 32 config) = [7, 7]" "message (stale :: 32 config) = ''junk''"
    by (simp_all add: stale_def)
  from numbers_and_message_unchanged
    [of 13 posix_host stale None "main_at posix_host stale 6" "main_at posix_host stale 7"]
    st at junk
  show ?thesis
    by simp
qed

text \<open>
  Claim C9. From every configuration the execution of \<open>main\<close> ends, after exactly
  \<open>remaining c\<close> statements and not before, with \<open>main\<close> having returned. The one loop
  is bounded by the sequence: entered at position \<open>it\<close> it makes \<open>length numbers - it\<close>
  iterations and is left at the next test. The program executes 15 statements.
\<close>

theorem main_terminates:
  "run room c = steps room (remaining c) c \<and> pc (run room c) = Done
   \<and> step room (run room c) = None
   \<and> (\<forall>n<remaining c. step room (steps room n c) \<noteq> None)
   \<and> (pc c = Loop \<and> it c \<le> length (numbers c) \<longrightarrow>
        (\<forall>j\<le>length (numbers c) - it c.
           pc (steps room j c) = Loop \<and> it (steps room j c) = it c + j) \<and>
        pc (steps room (Suc (length (numbers c) - it c)) c) = L18)
   \<and> remaining (init_config h u :: 32 config) = 15 \<and> main_cpp h u = main_at h u 15"
proof -
  have "step room (steps room n c) \<noteq> None" if "n < remaining c" for n
  proof -
    from that have "remaining (steps room n c) \<noteq> 0"
      by (simp add: steps_remaining)
    then show ?thesis
      by (simp add: step_None_iff remaining_0_iff)
  qed
  moreover have "pc (steps room j c) = Loop \<and> it (steps room j c) = it c + j"
    if "pc c = Loop" and "it c \<le> length (numbers c)" and "j \<le> length (numbers c) - it c" for j
  proof -
    from that have "steps room j c =
        c\<lparr>sum_v := sum_v c + sum_list (take j (drop (it c) (numbers c))), it := it c + j\<rparr>"
      by (intro loop_steps) simp_all
    with that(1) show ?thesis
      by simp
  qed
  moreover have "main_cpp h u = main_at h u 15"
    by (simp add: main_cpp_def main_at_def run_init)
  moreover have "step room (run room c) = None"
    by (simp add: step_None_iff run_Done)
  ultimately show ?thesis
    using run_remaining [of room c] run_Done [of room c] loop_leaves [of c room]
      remaining_init [of h u]
    by blast
qed

theorem main_terminates_witness:
  "it (stale :: 32 config) = 3
   \<and> pc (main_at posix_host stale 4) = Loop
   \<and> it (main_at posix_host stale 4) \<le> length (numbers (main_at posix_host stale 4))
   \<and> length (numbers (main_at posix_host stale 4)) - it (main_at posix_host stale 4) = 5
   \<and> remaining (main_at posix_host stale 4) = 11
   \<and> (3::nat) \<le> 5 \<and> (3::nat) < 11
   \<and> pc (steps None 3 (main_at posix_host stale 4)) = Loop
   \<and> it (steps None 3 (main_at posix_host stale 4)) = 3
   \<and> step None (steps None 3 (main_at posix_host stale 4)) \<noteq> None
   \<and> pc (steps None (Suc 5) (main_at posix_host stale 4)) = L18"
proof -
  have c4: "pc (main_at posix_host stale 4) = Loop" "it (main_at posix_host stale 4) = 0"
    "length (numbers (main_at posix_host stale 4)) = 5"
    by (simp_all add: main_at_def steps_4_init)
  have r: "remaining (main_at posix_host stale 4) = 11"
    by (simp add: remaining_main_at)
  have junk: "it (stale :: 32 config) = 3"
    by (simp add: stale_def)
  from main_terminates [of None "main_at posix_host stale 4" posix_host stale] c4 r junk
  show ?thesis
    by simp
qed

text \<open>
  Claim C10. The invariant of the summation. It is established by the code: the
  statement of line 13 sets \<open>sum\<close> to 0 and the entry of the loop sets the iterator to the
  first position, in every configuration, so that \<open>sum\<close> is 0 when the loop is entered
  whatever the storage held. After \<open>k\<close> iterations, for every \<open>k\<close> from 0 to 5, the
  iterator is at position \<open>k\<close> and \<open>sum\<close> is the sum of the first \<open>k\<close> elements of
  \<open>numbers\<close>; \<open>sum\<close> is never negative, and every iteration increases it strictly.
\<close>

theorem sum_loop_invariant:
  assumes "k \<le> 5"
  shows "pc (main_at h u (4 + k)) = Loop \<and> it (main_at h u (4 + k)) = k
    \<and> sint (sum_v (main_at h u (4 + k))) =
        sum_list (map sint (take k (numbers (main_at h u (4 + k)))))
    \<and> 0 \<le> sint (sum_v (main_at h u (4 + k)))
    \<and> (k < 5 \<longrightarrow> sint (sum_v (main_at h u (4 + k))) < sint (sum_v (main_at h u (4 + Suc k))))
    \<and> sum_v (main_at h u 4) = 0
    \<and> (pc c = L13 \<longrightarrow> step room c = Some (c\<lparr>sum_v := 0, pc := L14\<rparr>))
    \<and> (pc c = L14 \<longrightarrow> step room c = Some (c\<lparr>it := 0, pc := Loop\<rparr>))"
proof -
  note at = main_at_loop [of _ h u]
  have entry: "sum_v (main_at h u 4) = 0"
    using at [of 0] by simp
  have init: "(pc c = L13 \<longrightarrow> step room c = Some (c\<lparr>sum_v := 0, pc := L14\<rparr>))
    \<and> (pc c = L14 \<longrightarrow> step room c = Some (c\<lparr>it := 0, pc := Loop\<rparr>))"
    by (simp add: step.simps)
  from assms have "k = 0 \<or> k = 1 \<or> k = 2 \<or> k = 3 \<or> k = 4 \<or> k = 5"
    by (rule le_5_cases)
  then have "pc (main_at h u (4 + k)) = Loop \<and> it (main_at h u (4 + k)) = k
    \<and> sint (sum_v (main_at h u (4 + k))) =
        sum_list (map sint (take k (numbers (main_at h u (4 + k)))))
    \<and> 0 \<le> sint (sum_v (main_at h u (4 + k)))
    \<and> (k < 5 \<longrightarrow> sint (sum_v (main_at h u (4 + k))) < sint (sum_v (main_at h u (4 + Suc k))))"
  proof (elim disjE)
    assume "k = 0"
    with at [of 0] at [of 1] show ?thesis by simp
  next
    assume "k = 1"
    with at [of 1] at [of 2] show ?thesis by simp
  next
    assume "k = 2"
    with at [of 2] at [of 3] show ?thesis by simp
  next
    assume "k = 3"
    with at [of 3] at [of 4] show ?thesis by simp
  next
    assume "k = 4"
    with at [of 4] at [of 5] show ?thesis by simp
  next
    assume "k = 5"
    with at [of 5] show ?thesis by simp
  qed
  with entry init show ?thesis
    by blast
qed

theorem sum_loop_invariant_witness:
  "(3::nat) \<le> 5 \<and> (3::nat) < 5 \<and> sum_v (stale :: 32 config) = 7
    \<and> sum_v (main_at posix_host stale 4) = 0
    \<and> pc (main_at posix_host stale (4 + 3)) = Loop \<and> it (main_at posix_host stale (4 + 3)) = 3
    \<and> sint (sum_v (main_at posix_host stale (4 + 3))) =
        sum_list (map sint (take 3 (numbers (main_at posix_host stale (4 + 3)))))
    \<and> sint (sum_v (main_at posix_host stale (4 + 3))) = 6
    \<and> sint (sum_v (main_at posix_host stale (4 + 3))) <
        sint (sum_v (main_at posix_host stale (4 + Suc 3)))
    \<and> pc (main_at posix_host stale 2) = L13
    \<and> step None (main_at posix_host stale 2) =
        Some ((main_at posix_host stale 2)\<lparr>sum_v := 0, pc := L14\<rparr>)
    \<and> pc (main_at posix_host stale 3) = L14
    \<and> step None (main_at posix_host stale 3) =
        Some ((main_at posix_host stale 3)\<lparr>it := 0, pc := Loop\<rparr>)"
proof -
  have k: "(3::nat) \<le> 5"
    by simp
  have six: "sint (sum_v (main_at posix_host stale (4 + 3))) = 6"
    using main_at_loop [of 3 posix_host stale] by simp
  have junk: "sum_v (stale :: 32 config) = 7"
    by (simp add: stale_def)
  have p2: "pc (main_at posix_host stale 2) = L13"
    by (simp add: main_at_def steps_2_init)
  have p3: "pc (main_at posix_host stale 3) = L14"
    by (simp add: main_at_def steps_3_init)
  from sum_loop_invariant [OF k, of posix_host stale "main_at posix_host stale 2" None] p2
  have a: "step None (main_at posix_host stale 2) =
        Some ((main_at posix_host stale 2)\<lparr>sum_v := 0, pc := L14\<rparr>)"
    by blast
  from sum_loop_invariant [OF k, of posix_host stale "main_at posix_host stale 3" None] p3
  have b: "step None (main_at posix_host stale 3) =
        Some ((main_at posix_host stale 3)\<lparr>it := 0, pc := Loop\<rparr>)"
    by blast
  from sum_loop_invariant [OF k, of posix_host stale "main_at posix_host stale 3" None]
    six junk p2 p3 a b
  show ?thesis
    by simp
qed

end
